theory Spec2Isabelle
  imports Complex_Main "HOL-Library.Multiset" "HOL-Library.Sublist"
begin

section \<open>Data model\<close>

text \<open>
  The exceptions the modelled code can end with. \<open>AssertionError\<close> is what the
  \<^verbatim>\<open>assert\<close> of \<^verbatim>\<open>loss_pred_loss\<close> raises (the specification calls it
  InvalidInputError); \<open>RuntimeError\<close> is a failed broadcast of two tensors;
  \<open>UnboundLocalError\<close> (a subclass of Python's NameError) is the read of a local
  variable that was never assigned; \<open>IndexError\<close> is an index out of range.
  \<open>NotImplementedError\<close> is the exception that \<^verbatim>\<open>loss_pred_loss\<close> constructs
  in its last branch.
\<close>

datatype error =
    AssertionError
  | RuntimeError
  | UnboundLocalError
  | NotImplementedError
  | IndexError

text \<open>
  What \<^verbatim>\<open>loss_pred_loss\<close> returns: a 0-dimensional tensor (\<open>Scalar\<close>), the
  0-dimensional tensor holding \<^verbatim>\<open>nan\<close> (the quotient \<^verbatim>\<open>0. / 0\<close> of an empty
  batch), or a 1-dimensional tensor (\<open>Vector\<close>). Tensor entries are modelled as real
  numbers: rounding, infinities and NaN inputs of the float32 arithmetic are not modelled.
\<close>

datatype loss_value =
    Scalar real
  | NaN
  | Vector "real list"

section \<open>The ranking loss (\<^verbatim>\<open>loss_pred_loss\<close>, main.py and bias_test_ll4al.py)\<close>

text \<open>\<^verbatim>\<open>x - x.flip(0)\<close> followed by \<^verbatim>\<open>[:len(x)//2]\<close> on a 1-dimensional tensor.\<close>

definition half_diff :: "real list \<Rightarrow> real list" where
  "half_diff x = take (length x div 2) (map2 (-) x (rev x))"

text \<open>\<^verbatim>\<open>torch.clamp(x, min=0)\<close> and \<^verbatim>\<open>torch.sign\<close>, elementwise.\<close>

definition clamp_min0 :: "real \<Rightarrow> real" where
  "clamp_min0 x = max x 0"

definition sign_indicator :: "real \<Rightarrow> real" where
  "sign_indicator t = 2 * sgn (clamp_min0 t) - 1"

text \<open>
  The elementwise product \<^verbatim>\<open>one * input\<close> of two 1-dimensional tensors under the
  broadcasting rule: equal sizes multiply pointwise, a size of 1 is stretched to the other
  size, and any other pair of sizes raises RuntimeError.
\<close>

definition broadcast_mul :: "real list \<Rightarrow> real list \<Rightarrow> error + real list" where
  "broadcast_mul xs ys =
     (if length xs = length ys then Inr (map2 (*) xs ys)
      else if length xs = 1 then Inr (map (\<lambda>y. hd xs * y) ys)
      else if length ys = 1 then Inr (map (\<lambda>x. x * hd ys) xs)
      else Inl RuntimeError)"

text \<open>
  \<^verbatim>\<open>
  def loss_pred_loss(input, target, margin=1.0, reduction='mean'):
      assert len(input) % 2 == 0, 'the batch size is not even.'
      assert input.shape == input.flip(0).shape
      input = (input - input.flip(0))[:len(input)//2]
      target = (target - target.flip(0))[:len(target)//2]
      target = target.detach()
      one = 2 * torch.sign(torch.clamp(target, min=0)) - 1
      if reduction == 'mean':
          loss = torch.sum(torch.clamp(margin - one * input, min=0))
          loss = loss / input.size(0)
      elif reduction == 'none':
          loss = torch.clamp(margin - one * input, min=0)
      else:
          NotImplementedError()
      return loss
  \<close>
  Assertions are taken as enabled. The second assertion compares a shape with the shape of
  its own flip and cannot fail. In the last branch the exception object is built and
  dropped, so \<^verbatim>\<open>return loss\<close> reads an unassigned local variable.
\<close>

definition loss_pred_loss :: "real list \<Rightarrow> real list \<Rightarrow> real \<Rightarrow> string \<Rightarrow> error + loss_value" where
  "loss_pred_loss input target margin reduction =
     (if length input mod 2 \<noteq> 0 then Inl AssertionError
      else
        let input' = half_diff input;
            target' = half_diff target;
            one = map sign_indicator target'
        in if reduction = ''mean'' then
             (case broadcast_mul one input' of
                Inl e \<Rightarrow> Inl e
              | Inr p \<Rightarrow>
                  let loss = sum_list (map (\<lambda>x. clamp_min0 (margin - x)) p)
                  in if length input' = 0 then Inr NaN
                     else Inr (Scalar (loss / real (length input'))))
           else if reduction = ''none'' then
             (case broadcast_mul one input' of
                Inl e \<Rightarrow> Inl e
              | Inr p \<Rightarrow> Inr (Vector (map (\<lambda>x. clamp_min0 (margin - x)) p)))
           else Inl UnboundLocalError)"

text \<open>
  The per-pair loss as the specification words it: the sign indicator is \<open>+1\<close> if
  \<open>\<Delta>target \<ge> 0\<close> and \<open>-1\<close> otherwise.
\<close>

definition spec_pair_loss :: "real \<Rightarrow> real \<Rightarrow> real \<Rightarrow> real" where
  "spec_pair_loss margin dp dt = max 0 (margin - (if dt \<ge> 0 then 1 else -1) * dp)"

text \<open>The per-pair loss the code computes: the indicator is \<open>+1\<close> only if \<open>\<Delta>target > 0\<close>.\<close>

definition pair_loss :: "real \<Rightarrow> real \<Rightarrow> real \<Rightarrow> real" where
  "pair_loss margin dp dt = max 0 (margin - (if dt > 0 then 1 else -1) * dp)"

section \<open>Python lists and tensors as lists\<close>

text \<open>
  The slices \<^verbatim>\<open>xs[:k]\<close> and \<^verbatim>\<open>xs[k:]\<close> of a list or 1-dimensional tensor for an
  arbitrary integer \<open>k\<close>: a negative \<open>k\<close> counts from the end and is clipped at the
  start of the list, so \<^verbatim>\<open>xs[-0:]\<close> is the whole list.
\<close>

definition slice_to :: "int \<Rightarrow> 'a list \<Rightarrow> 'a list" where
  "slice_to k xs =
     (if 0 \<le> k then take (nat k) xs else take (length xs - nat (- k)) xs)"

definition slice_from :: "int \<Rightarrow> 'a list \<Rightarrow> 'a list" where
  "slice_from k xs =
     (if 0 \<le> k then drop (nat k) xs else drop (length xs - nat (- k)) xs)"

text \<open>
  \<^verbatim>\<open>np.argsort(uncertainty)\<close>: the positions of the entries in ascending order of
  value. The model sorts stably; numpy's default sort does not promise an order among
  equal values, and the properties below use only that the result is a permutation of
  the positions that lists the values in ascending order.
\<close>

definition argsort :: "real list \<Rightarrow> nat list" where
  "argsort u = sort_key (\<lambda>i. u ! i) [0..<length u]"

text \<open>
  Indexing a tensor by an index array, \<^verbatim>\<open>torch.tensor(xs)[arg]\<close>: IndexError as soon
  as one index is out of range.
\<close>

definition gather :: "'a list \<Rightarrow> nat list \<Rightarrow> error + 'a list" where
  "gather xs arg =
     (if list_all (\<lambda>a. a < length xs) arg then Inr (map (\<lambda>a. xs ! a) arg)
      else Inl IndexError)"

text \<open>
  The position that the index \<open>i\<close> denotes in a Python list of length \<open>n\<close>
  (\<^verbatim>\<open>cnt_lst[i]\<close>): negative indices count from the end, anything else out of range
  raises IndexError (\<open>None\<close>).
\<close>

definition py_index :: "nat \<Rightarrow> int \<Rightarrow> nat option" where
  "py_index n i =
     (if 0 \<le> i \<and> i < int n then Some (nat i)
      else if - int n \<le> i \<and> i < 0 then Some (nat (int n + i))
      else None)"

section \<open>The index sets and the selection steps\<close>

text \<open>
  The two index lists the loop owns. Sample indices are natural numbers
  (\<^verbatim>\<open>range(NUM_TRAIN)\<close>), class labels are integers.
\<close>

record pools =
  labeled_set :: "nat list"
  unlabeled_set :: "nat list"

text \<open>
  \<^verbatim>\<open>
  indices = list(range(NUM_TRAIN))
  random.shuffle(indices)
  labeled_set = indices[:INIT_CNT]
  unlabeled_set = indices[INIT_CNT:]
  \<close>
  The shuffled list is the argument \<open>indices\<close>.
\<close>

definition init_split :: "int \<Rightarrow> nat list \<Rightarrow> pools" where
  "init_split INIT_CNT indices =
     \<lparr>labeled_set = slice_to INIT_CNT indices, unlabeled_set = slice_from INIT_CNT indices\<rparr>"

text \<open>
  The class-floor walk of main.py over the tail of the descending order:
  \<^verbatim>\<open>
  for idx in range(len(ordered_index)):
      if cnt_lst[ordered_label[idx]] < MINIMUM_CNT:
          cnt_lst[ordered_label[idx]] += 1
          labeled_set.append(ordered_index[idx])
  \<close>
  The two lists are walked in step; the state is \<^verbatim>\<open>cnt_lst\<close> and
  \<^verbatim>\<open>labeled_set\<close>.
\<close>

fun floor_walk :: "int \<Rightarrow> nat list \<Rightarrow> int list \<Rightarrow> int list \<times> nat list \<Rightarrow> error + (int list \<times> nat list)" where
  "floor_walk MINIMUM_CNT [] ordered_label st = Inr st"
| "floor_walk MINIMUM_CNT (i # ordered_index) [] st = Inl IndexError"
| "floor_walk MINIMUM_CNT (i # ordered_index) (l # ordered_label) (cnt_lst, labeled) =
     (case py_index (length cnt_lst) l of
        None \<Rightarrow> Inl IndexError
      | Some k \<Rightarrow>
          if cnt_lst ! k < MINIMUM_CNT
          then floor_walk MINIMUM_CNT ordered_index ordered_label
                 (cnt_lst[k := cnt_lst ! k + 1], labeled @ [i])
          else floor_walk MINIMUM_CNT ordered_index ordered_label (cnt_lst, labeled))"

text \<open>
  The selection step of main.py (Top-B with class floor), from the arrays that
  \<^verbatim>\<open>get_uncertainty\<close> returned for \<^verbatim>\<open>subset = unlabeled_set[:]\<close>:
  \<^verbatim>\<open>
  arg = np.argsort(uncertainty)
  ordered_label = list(label[arg].numpy())[::-1]
  ordered_index = list(torch.tensor(subset)[arg].numpy())[::-1]
  labeled_set += ordered_index[:ADDENDUM - (MINIMUM_CNT * CLS_CNT)]
  ordered_index = ordered_index[ADDENDUM - (MINIMUM_CNT * CLS_CNT):]
  ordered_label = ordered_label[ADDENDUM - (MINIMUM_CNT * CLS_CNT):]
  cnt_lst = [0 for _ in range(CLS_CNT)]
  for idx in range(len(ordered_index)): ...
  unlabeled_set = list(set(unlabeled_set) - set(labeled_set))
  \<close>
  The last line builds a list from a set: the model keeps the elements in the order
  they had in \<^verbatim>\<open>unlabeled_set\<close>, which stands for the order in which Python
  iterates the set; only the elements of the result matter below.
\<close>

definition floor_cycle :: "int \<Rightarrow> int \<Rightarrow> int \<Rightarrow> pools \<Rightarrow> real list \<Rightarrow> int list \<Rightarrow> error + pools" where
  "floor_cycle ADDENDUM MINIMUM_CNT CLS_CNT st uncertainty label =
     (let subset = unlabeled_set st;
          arg = argsort uncertainty
      in case gather label arg of
           Inl e \<Rightarrow> Inl e
         | Inr gl \<Rightarrow>
             (case gather subset arg of
                Inl e \<Rightarrow> Inl e
              | Inr gi \<Rightarrow>
                  let ordered_label = rev gl;
                      ordered_index = rev gi;
                      k = ADDENDUM - MINIMUM_CNT * CLS_CNT;
                      labeled = labeled_set st @ slice_to k ordered_index;
                      ordered_index = slice_from k ordered_index;
                      ordered_label = slice_from k ordered_label;
                      cnt_lst = replicate (nat CLS_CNT) 0
                  in case floor_walk MINIMUM_CNT ordered_index ordered_label (cnt_lst, labeled) of
                       Inl e \<Rightarrow> Inl e
                     | Inr (cnt_lst, labeled) \<Rightarrow>
                         Inr \<lparr>labeled_set = labeled,
                              unlabeled_set =
                                remdups (filter (\<lambda>x. x \<notin> set labeled) (unlabeled_set st))\<rparr>))"

text \<open>
  The cycles of one trial of main.py, as far as the index sets go. Training, testing and
  \<^verbatim>\<open>get_uncertainty\<close> of cycle \<open>c\<close> are the argument \<open>scorer\<close>: it maps the cycle
  number and the subset to the arrays \<^verbatim>\<open>(uncertainty, label)\<close>.
  \<open>run_cycles \<dots> c n st\<close> runs cycles \<open>c, \<dots>, c + n - 1\<close> from \<open>st\<close> and stops at the
  first exception.
\<close>

fun run_cycles :: "int \<Rightarrow> int \<Rightarrow> int \<Rightarrow> (nat \<Rightarrow> nat list \<Rightarrow> real list \<times> int list) \<Rightarrow> nat \<Rightarrow> nat \<Rightarrow> pools \<Rightarrow> error + pools" where
  "run_cycles ADDENDUM MINIMUM_CNT CLS_CNT scorer c 0 st = Inr st"
| "run_cycles ADDENDUM MINIMUM_CNT CLS_CNT scorer c (Suc n) st =
     (case floor_cycle ADDENDUM MINIMUM_CNT CLS_CNT st
             (fst (scorer c (unlabeled_set st))) (snd (scorer c (unlabeled_set st))) of
        Inl e \<Rightarrow> Inl e
      | Inr st' \<Rightarrow> run_cycles ADDENDUM MINIMUM_CNT CLS_CNT scorer (Suc c) n st')"

definition trial :: "int \<Rightarrow> int \<Rightarrow> int \<Rightarrow> int \<Rightarrow> (nat \<Rightarrow> nat list \<Rightarrow> real list \<times> int list) \<Rightarrow> nat list \<Rightarrow> nat \<Rightarrow> error + pools" where
  "trial INIT_CNT ADDENDUM MINIMUM_CNT CLS_CNT scorer indices CYCLES =
     run_cycles ADDENDUM MINIMUM_CNT CLS_CNT scorer 0 CYCLES (init_split INIT_CNT indices)"

text \<open>
  The selection step of bias_test_ll4al.py (plain Top-B); \<open>st\<close> is the state after
  \<^verbatim>\<open>random.shuffle(unlabeled_set)\<close>, so \<^verbatim>\<open>subset\<close> is its unlabeled list:
  \<^verbatim>\<open>
  arg = np.argsort(uncertainty)
  selected_labels = list(torch.tensor(labels)[arg][-ADDENDUM:].numpy())
  selected_samples = list(torch.tensor(subset)[arg][-ADDENDUM:].numpy())
  ...
  labeled_set += selected_samples
  unlabeled_set = list(torch.tensor(subset)[arg][:-ADDENDUM].numpy())
  \<close>
  The lines left out compute the counters and the oracle ranking that are written to the
  bookkeeping file; they do not touch the two index lists.
\<close>

definition top_b_cycle :: "int \<Rightarrow> pools \<Rightarrow> real list \<Rightarrow> int list \<Rightarrow> error + pools" where
  "top_b_cycle ADDENDUM st uncertainty labels =
     (let subset = unlabeled_set st;
          arg = argsort uncertainty
      in case gather labels arg of
           Inl e \<Rightarrow> Inl e
         | Inr gl \<Rightarrow>
             (case gather subset arg of
                Inl e \<Rightarrow> Inl e
              | Inr gs \<Rightarrow>
                  let selected_labels = slice_from (- ADDENDUM) gl;
                      selected_samples = slice_from (- ADDENDUM) gs
                  in Inr \<lparr>labeled_set = labeled_set st @ selected_samples,
                          unlabeled_set = slice_to (- ADDENDUM) gs\<rparr>))"

text \<open>
  The pool in descending order of uncertainty (\<^verbatim>\<open>ordered_index\<close> of main.py before
  it is cut), for arrays as long as the pool.
\<close>

definition descending :: "nat list \<Rightarrow> real list \<Rightarrow> nat list" where
  "descending pool uncertainty = rev (map (\<lambda>a. pool ! a) (argsort uncertainty))"

text \<open>The scores of the specification's Top-B scenario; entry \<open>i\<close> is the score of index \<open>i\<close>.\<close>

definition example_scores :: "real list" where
  "example_scores = [0.1, 0.9, 0.3, 0.8, 0.2, 0.7, 0.05, 0.6, 0.4, 0.5]"

section \<open>The uncertainty scorer (\<^verbatim>\<open>get_uncertainty\<close>)\<close>











section \<open>Concrete inputs used to instantiate the theorems\<close>

text \<open>
  A pool of ten indices in a shuffled order next to two labeled indices, for the Top-B
  step with the scores \<open>example_scores\<close>.
\<close>

definition example_pools :: pools where
  "example_pools = \<lparr>labeled_set = [10, 11], unlabeled_set = [3, 7, 1, 9, 0, 5, 2, 8, 6, 4]\<rparr>"

text \<open>
  A pool of twelve indices with four classes for the class-floor step: index \<open>i\<close> has
  score \<open>12 - i\<close>, so the descending order is \<open>0, 1, \<dots>, 11\<close>; the four highest scores
  belong to classes 0 and 1 only.
\<close>

definition floor_pools :: pools where
  "floor_pools = \<lparr>labeled_set = [12, 13], unlabeled_set = [0, 1, 2, 3, 4, 5, 6, 7, 8, 9, 10, 11]\<rparr>"

definition floor_uncertainty :: "real list" where
  "floor_uncertainty = [12, 11, 10, 9, 8, 7, 6, 5, 4, 3, 2, 1]"

definition floor_lab :: "nat \<Rightarrow> int" where
  "floor_lab i = [0, 0, 1, 1, 2, 0, 3, 1, 2, 3, 0, 1] ! i"

text \<open>A dataset of eight samples with two classes, a shuffle of its indices and a scorer.\<close>

definition trial_lab :: "nat \<Rightarrow> int" where
  "trial_lab i = int (i mod 2)"

definition trial_indices :: "nat list" where
  "trial_indices = [3, 0, 5, 1, 4, 2, 7, 6]"

definition trial_scorer :: "nat \<Rightarrow> nat list \<Rightarrow> real list \<times> int list" where
  "trial_scorer c s = (map (\<lambda>i. real ((3 * i + c) mod 8)) s, map trial_lab s)"







section \<open>Properties of the ranking loss\<close>

lemma length_half_diff: "length (half_diff x) = length x div 2"
  by (simp add: half_diff_def)

lemma nth_half_diff:
  assumes "i < length x div 2"
  shows "half_diff x ! i = x ! i - x ! (length x - 1 - i)"
proof -
  have i: "i < length x" using assms by simp
  have "half_diff x ! i = map2 (-) x (rev x) ! i"
    using assms by (simp add: half_diff_def)
  also have "\<dots> = x ! i - rev x ! i" using i by simp
  also have "rev x ! i = x ! (length x - 1 - i)"
    using i by (simp add: rev_nth)
  finally show ?thesis .
qed

lemma sign_indicator_cases: "sign_indicator t = (if t > 0 then 1 else -1)"
  by (simp add: sign_indicator_def clamp_min0_def max_def)

lemma broadcast_mul_same:
  "length xs = length ys \<Longrightarrow> broadcast_mul xs ys = Inr (map2 (*) xs ys)"
  by (simp add: broadcast_mul_def)

lemma loss_pred_loss_none_eq:
  assumes "even (length input)" "length target = length input"
  shows "loss_pred_loss input target margin ''none'' =
           Inr (Vector (map2 (\<lambda>t p. clamp_min0 (margin - sign_indicator t * p))
                          (half_diff target) (half_diff input)))"
proof -
  have len: "length (map sign_indicator (half_diff target)) = length (half_diff input)"
    using assms by (simp add: length_half_diff)
  have "map (\<lambda>x. clamp_min0 (margin - x)) (map2 (*) (map sign_indicator (half_diff target)) (half_diff input))
        = map2 (\<lambda>t p. clamp_min0 (margin - sign_indicator t * p)) (half_diff target) (half_diff input)"
    by (simp add: zip_map1 split_def)
  then show ?thesis
    using assms(1) broadcast_mul_same [OF len]
    by (simp add: loss_pred_loss_def Let_def)
qed

lemma loss_pred_loss_mean_eq:
  assumes "even (length input)" "length target = length input"
  shows "loss_pred_loss input target margin ''mean'' =
           Inr (if length input = 0 then NaN
                else Scalar (sum_list (map2 (\<lambda>t p. clamp_min0 (margin - sign_indicator t * p))
                          (half_diff target) (half_diff input)) / real (length input div 2)))"
proof -
  have len: "length (map sign_indicator (half_diff target)) = length (half_diff input)"
    using assms by (simp add: length_half_diff)
  have eq: "map (\<lambda>x. clamp_min0 (margin - x)) (map2 (*) (map sign_indicator (half_diff target)) (half_diff input))
        = map2 (\<lambda>t p. clamp_min0 (margin - sign_indicator t * p)) (half_diff target) (half_diff input)"
    by (simp add: zip_map1 split_def)
  have z: "length input div 2 = 0 \<longleftrightarrow> length input = 0"
    using assms(1) by (auto elim: evenE)
  show ?thesis
    using assms(1) broadcast_mul_same [OF len] z
    by (simp add: loss_pred_loss_def Let_def length_half_diff zip_map1 split_def comp_def)
qed

text \<open>
  Claim C1, as amended. For vectors of the same even length \<open>N\<close>, the unreduced
  \<^verbatim>\<open>loss_pred_loss\<close> returns one entry for each \<open>i < N/2\<close>; entry \<open>i\<close> pairs
  sample \<open>i\<close> with sample \<open>N-1-i\<close> and equals \<open>max(0, margin - s\<cdot>\<Delta>predicted)\<close>
  with \<open>\<Delta>predicted = predicted[i] - predicted[N-1-i]\<close>, where the sign indicator
  \<open>s\<close> is \<open>+1\<close> exactly when \<open>\<Delta>target = target[i] - target[N-1-i]\<close> is
  strictly positive, and \<open>-1\<close> otherwise (also when \<open>\<Delta>target = 0\<close>).
\<close>

theorem loss_pred_loss_pairs:
  assumes "even (length predicted)" and "length target = length predicted"
  shows "\<exists>ls. loss_pred_loss predicted target margin ''none'' = Inr (Vector ls) \<and>
              length ls = length predicted div 2 \<and>
              (\<forall>i < length predicted div 2.
                 ls ! i = pair_loss margin
                            (predicted ! i - predicted ! (length predicted - 1 - i))
                            (target ! i - target ! (length predicted - 1 - i)))"
proof -
  let ?ls = "map2 (\<lambda>t p. clamp_min0 (margin - sign_indicator t * p))
               (half_diff target) (half_diff predicted)"
  have r: "loss_pred_loss predicted target margin ''none'' = Inr (Vector ?ls)"
    by (rule loss_pred_loss_none_eq [OF assms])
  have l: "length ?ls = length predicted div 2"
    using assms by (simp add: length_half_diff)
  have "?ls ! i = pair_loss margin
                    (predicted ! i - predicted ! (length predicted - 1 - i))
                    (target ! i - target ! (length predicted - 1 - i))"
    if "i < length predicted div 2" for i
  proof -
    have it: "i < length target div 2" using that assms by simp
    have "?ls ! i = clamp_min0 (margin - sign_indicator (half_diff target ! i) * half_diff predicted ! i)"
      using that it by (simp add: length_half_diff)
    then show ?thesis
      using nth_half_diff [OF that] nth_half_diff [OF it] assms(2)
      by (simp add: pair_loss_def sign_indicator_cases clamp_min0_def max.commute)
  qed
  with r l show ?thesis by blast
qed

theorem loss_pred_loss_pairs_witness:
  "even (length [3, 1, 5, 0 :: real]) \<and> length [2, 7, 7, 4 :: real] = length [3, 1, 5, 0 :: real] \<and>
   (\<exists>ls. loss_pred_loss [3, 1, 5, 0] [2, 7, 7, 4] 1 ''none'' = Inr (Vector ls) \<and>
         length ls = length [3, 1, 5, 0 :: real] div 2 \<and>
         (\<forall>i < length [3, 1, 5, 0 :: real] div 2.
            ls ! i = pair_loss 1
                       ([3, 1, 5, 0] ! i - [3, 1, 5, 0] ! (length [3, 1, 5, 0 :: real] - 1 - i))
                       ([2, 7, 7, 4] ! i - [2, 7, 7, 4] ! (length [3, 1, 5, 0 :: real] - 1 - i))))"
proof -
  have h1: "even (length [3, 1, 5, 0 :: real])" by simp
  have h2: "length [2, 7, 7, 4 :: real] = length [3, 1, 5, 0 :: real]" by simp
  from h1 h2 loss_pred_loss_pairs [OF h1 h2, of 1] show ?thesis by (intro conjI)
qed

text \<open>
  Claim C1 as stated fails where the two targets of a pair are equal: for predicted
  \<open>[1, 0]\<close>, target \<open>[2, 2]\<close> and margin 1 the code's indicator is \<open>-1\<close> and the
  loss is \<open>max(0, 1 + 1) = 2\<close>, where the stated rule (\<open>s = +1\<close> for
  \<open>\<Delta>target \<ge> 0\<close>) gives \<open>max(0, 1 - 1) = 0\<close>.
\<close>

theorem loss_pred_loss_sign_counterexample:
  "loss_pred_loss [1, 0] [2, 2] 1 ''none'' = Inr (Vector [2]) \<and>
   spec_pair_loss 1 (1 - 0) (2 - 2) = 0"
  by (simp add: loss_pred_loss_def half_diff_def broadcast_mul_def sign_indicator_def
        clamp_min0_def spec_pair_loss_def)


text \<open>
  Claim C6. For vectors of the same even length \<open>N\<close>, \<^verbatim>\<open>loss_pred_loss\<close> with
  reduction \<^verbatim>\<open>'mean'\<close> returns the sum of the per-pair losses (the entries the unreduced
  mode returns) divided by the number of pairs \<open>N/2\<close>, not by \<open>N\<close>. For \<open>N = 0\<close>
  that quotient is \<^verbatim>\<open>0. / 0\<close>, the tensor \<^verbatim>\<open>nan\<close>.
\<close>

theorem loss_pred_loss_mean_divisor:
  assumes "even (length input)" and "length target = length input"
  shows "\<exists>ls. loss_pred_loss input target margin ''none'' = Inr (Vector ls) \<and>
              length ls = length input div 2 \<and>
              loss_pred_loss input target margin ''mean'' =
                Inr (if length input = 0 then NaN
                     else Scalar (sum_list ls / real (length input div 2)))"
proof -
  let ?ls = "map2 (\<lambda>t p. clamp_min0 (margin - sign_indicator t * p))
               (half_diff target) (half_diff input)"
  have "loss_pred_loss input target margin ''none'' = Inr (Vector ?ls)"
    by (rule loss_pred_loss_none_eq [OF assms])
  moreover have "length ?ls = length input div 2"
    using assms by (simp add: length_half_diff)
  moreover have "loss_pred_loss input target margin ''mean'' =
                Inr (if length input = 0 then NaN
                     else Scalar (sum_list ?ls / real (length input div 2)))"
    by (rule loss_pred_loss_mean_eq [OF assms])
  ultimately show ?thesis by blast
qed

theorem loss_pred_loss_mean_divisor_witness:
  "loss_pred_loss [3, 1, 5, 0] [2, 7, 7, 4] 1 ''none'' = Inr (Vector [4, 0]) \<and>
   loss_pred_loss [3, 1, 5, 0] [2, 7, 7, 4] 1 ''mean'' = Inr (Scalar (4 / 2))"
proof -
  have h1: "even (length [3, 1, 5, 0 :: real])" by simp
  have h2: "length [2, 7, 7, 4 :: real] = length [3, 1, 5, 0 :: real]" by simp
  have n: "loss_pred_loss [3, 1, 5, 0] [2, 7, 7, 4] 1 ''none'' = Inr (Vector [4, 0])"
    by (simp add: loss_pred_loss_def half_diff_def broadcast_mul_def sign_indicator_def
        clamp_min0_def)
  from loss_pred_loss_mean_divisor [OF h1 h2, of 1] n show ?thesis by simp
qed

text \<open>
  Claim C7. For vectors of the same even length \<open>N\<close>, \<^verbatim>\<open>loss_pred_loss\<close> with
  reduction \<^verbatim>\<open>'none'\<close> returns a vector of length \<open>N/2\<close> whose entries are all
  \<open>\<ge> 0\<close>.
\<close>

theorem loss_pred_loss_none_nonneg:
  assumes "even (length input)" and "length target = length input"
  shows "\<exists>ls. loss_pred_loss input target margin ''none'' = Inr (Vector ls) \<and>
              length ls = length input div 2 \<and> (\<forall>x \<in> set ls. 0 \<le> x)"
proof -
  let ?ls = "map2 (\<lambda>t p. clamp_min0 (margin - sign_indicator t * p))
               (half_diff target) (half_diff input)"
  have "loss_pred_loss input target margin ''none'' = Inr (Vector ?ls)"
    by (rule loss_pred_loss_none_eq [OF assms])
  moreover have "length ?ls = length input div 2"
    using assms by (simp add: length_half_diff)
  moreover have "\<forall>x \<in> set ?ls. 0 \<le> x"
    by (auto simp: clamp_min0_def)
  ultimately show ?thesis by blast
qed

theorem loss_pred_loss_none_nonneg_witness:
  "even (length [3, 1, 5, 0 :: real]) \<and> length [2, 7, 7, 4 :: real] = length [3, 1, 5, 0 :: real] \<and>
   (\<exists>ls. loss_pred_loss [3, 1, 5, 0] [2, 7, 7, 4] (1/2) ''none'' = Inr (Vector ls) \<and>
         length ls = length [3, 1, 5, 0 :: real] div 2 \<and> (\<forall>x \<in> set ls. 0 \<le> x))"
proof -
  have h1: "even (length [3, 1, 5, 0 :: real])" by simp
  have h2: "length [2, 7, 7, 4 :: real] = length [3, 1, 5, 0 :: real]" by simp
  from h1 h2 loss_pred_loss_none_nonneg [OF h1 h2, of "1/2"] show ?thesis by (intro conjI)
qed

lemma broadcast_mul_error: "broadcast_mul xs ys = Inl e \<Longrightarrow> e = RuntimeError"
  by (auto simp: broadcast_mul_def split: if_splits)

text \<open>
  Claim C8. Whenever the length of \<^verbatim>\<open>input\<close> is odd, \<^verbatim>\<open>loss_pred_loss\<close> ends with
  the error of its first assertion (the specification's InvalidInputError) instead of a
  value, whatever the target, margin and reduction; whenever the length is even, that
  error is not raised.
\<close>

theorem loss_pred_loss_assertion:
  "(odd (length input) \<longrightarrow> loss_pred_loss input target margin reduction = Inl AssertionError) \<and>
   (even (length input) \<longrightarrow> loss_pred_loss input target margin reduction \<noteq> Inl AssertionError)"
proof (intro conjI impI)
  assume "odd (length input)"
  then show "loss_pred_loss input target margin reduction = Inl AssertionError"
    by (simp add: loss_pred_loss_def odd_iff_mod_2_eq_one)
next
  assume e: "even (length input)"
  show "loss_pred_loss input target margin reduction \<noteq> Inl AssertionError"
  proof
    assume "loss_pred_loss input target margin reduction = Inl AssertionError"
    then show False
      using e
      by (auto simp: loss_pred_loss_def Let_def split: if_splits sum.splits
          dest: broadcast_mul_error)
  qed
qed

theorem loss_pred_loss_assertion_witness:
  "loss_pred_loss [3, 1, 5] [2, 7, 7] 1 ''mean'' = Inl AssertionError \<and>
   loss_pred_loss [3, 1, 5, 0] [2, 7, 7, 4] 1 ''mean'' \<noteq> Inl AssertionError"
  using loss_pred_loss_assertion [of "[3, 1, 5]" "[2, 7, 7]" 1 "''mean''"]
    loss_pred_loss_assertion [of "[3, 1, 5, 0]" "[2, 7, 7, 4]" 1 "''mean''"]
  by simp

text \<open>
  Claim C10. For every reduction other than \<^verbatim>\<open>'mean'\<close> and \<^verbatim>\<open>'none'\<close>,
  \<^verbatim>\<open>loss_pred_loss\<close> never ends with NotImplementedError: once the assertion on the
  even batch size has passed, it ends with UnboundLocalError (a NameError) at
  \<^verbatim>\<open>return loss\<close>; an odd batch size ends with the assertion's error before that.
\<close>

theorem loss_pred_loss_unsupported_reduction:
  assumes "reduction \<noteq> ''mean''" and "reduction \<noteq> ''none''"
  shows "loss_pred_loss input target margin reduction \<noteq> Inl NotImplementedError \<and>
         loss_pred_loss input target margin reduction =
           (if even (length input) then Inl UnboundLocalError else Inl AssertionError)"
  using assms by (simp add: loss_pred_loss_def Let_def odd_iff_mod_2_eq_one)

theorem loss_pred_loss_unsupported_reduction_witness:
  "''sum'' \<noteq> ''mean'' \<and> ''sum'' \<noteq> ''none'' \<and>
   loss_pred_loss [3, 1, 5, 0] [2, 7, 7, 4] 1 ''sum'' \<noteq> Inl NotImplementedError \<and>
   loss_pred_loss [3, 1, 5, 0] [2, 7, 7, 4] 1 ''sum'' = Inl UnboundLocalError"
proof -
  have h1: "''sum'' \<noteq> ''mean''" by simp
  have h2: "''sum'' \<noteq> ''none''" by simp
  from h1 h2 loss_pred_loss_unsupported_reduction [OF h1 h2, of "[3, 1, 5, 0]" "[2, 7, 7, 4]" 1]
  show ?thesis by simp
qed

section \<open>Properties of slices, the sort and the class-floor walk\<close>

lemma slice_to_from: "slice_to k xs @ slice_from k xs = xs"
  by (simp add: slice_to_def slice_from_def)

lemma mset_argsort: "mset (argsort u) = mset [0..<length u]"
  by (simp add: argsort_def)

lemma length_argsort [simp]: "length (argsort u) = length u"
  by (simp add: argsort_def)

lemma set_argsort [simp]: "set (argsort u) = {0..<length u}"
  by (simp add: argsort_def)

lemma distinct_argsort [simp]: "distinct (argsort u)"
  by (simp add: argsort_def)

lemma sorted_argsort: "sorted (map (\<lambda>i. u ! i) (argsort u))"
  by (simp add: argsort_def)

lemma gather_argsort:
  "length u \<le> length xs \<Longrightarrow> gather xs (argsort u) = Inr (map (\<lambda>a. xs ! a) (argsort u))"
  by (auto simp: gather_def list_all_iff)

lemma mset_gathered:
  assumes "length u = length xs"
  shows "mset (map (\<lambda>a. xs ! a) (argsort u)) = mset xs"
proof -
  have "mset (map (\<lambda>a. xs ! a) (argsort u)) = image_mset (\<lambda>a. xs ! a) (mset (argsort u))"
    by simp
  also have "\<dots> = mset (map (\<lambda>a. xs ! a) [0..<length xs])"
    using assms by (simp add: mset_argsort)
  also have "\<dots> = mset xs" by (simp add: map_nth)
  finally show ?thesis .
qed

lemma mset_descending:
  "length u = length xs \<Longrightarrow> mset (descending xs u) = mset xs"
  using mset_gathered [of u xs] by (simp add: descending_def)

lemma py_index_in_range:
  "0 \<le> l \<Longrightarrow> l < int n \<Longrightarrow> py_index n l = Some (nat l)"
  by (simp add: py_index_def)

lemma floor_walk_admits:
  assumes "\<forall>i \<in> set is. 0 \<le> lab i \<and> lab i < int (length cnt)"
  shows "\<exists>adm cnt'. floor_walk m is (map lab is) (cnt, L) = Inr (cnt', L @ adm) \<and>
           subseq adm is \<and> length cnt' = length cnt \<and>
           (\<forall>c. 0 \<le> c \<and> c < int (length cnt) \<longrightarrow>
                int (count_list (map lab adm) c) =
                  min (int (count_list (map lab is) c)) (max 0 (m - cnt ! nat c)))"
  using assms
proof (induction "is" arbitrary: cnt L)
  case Nil
  then show ?case by simp
next
  case (Cons i "is")
  let ?k = "nat (lab i)"
  have k: "py_index (length cnt) (lab i) = Some ?k" "?k < length cnt"
    using Cons.prems by (auto simp: py_index_in_range)
  show ?case
  proof (cases "cnt ! ?k < m")
    case True
    let ?cnt = "cnt[?k := cnt ! ?k + 1]"
    have "\<forall>j \<in> set is. 0 \<le> lab j \<and> lab j < int (length ?cnt)"
      using Cons.prems by simp
    from Cons.IH [OF this, of "L @ [i]"] obtain adm cnt' where
      r: "floor_walk m is (map lab is) (?cnt, L @ [i]) = Inr (cnt', (L @ [i]) @ adm)"
      and s: "subseq adm is" and l: "length cnt' = length ?cnt"
      and c: "\<forall>c. 0 \<le> c \<and> c < int (length ?cnt) \<longrightarrow>
                int (count_list (map lab adm) c) =
                  min (int (count_list (map lab is) c)) (max 0 (m - ?cnt ! nat c))"
      by blast
    have "floor_walk m (i # is) (map lab (i # is)) (cnt, L) = Inr (cnt', L @ (i # adm))"
      using k True r by simp
    moreover have "subseq (i # adm) (i # is)" using s by simp
    moreover have "length cnt' = length cnt" using l by simp
    moreover have "int (count_list (map lab (i # adm)) c) =
                  min (int (count_list (map lab (i # is)) c)) (max 0 (m - cnt ! nat c))"
      if "0 \<le> c \<and> c < int (length cnt)" for c
    proof (cases "c = lab i")
      case True
      with c that \<open>cnt ! ?k < m\<close> k show ?thesis by (auto simp: min_def max_def)
    next
      case False
      then have "nat c \<noteq> ?k" using that Cons.prems by auto
      with c that False show ?thesis by auto
    qed
    ultimately show ?thesis by blast
  next
    case False
    have "\<forall>j \<in> set is. 0 \<le> lab j \<and> lab j < int (length cnt)"
      using Cons.prems by simp
    from Cons.IH [OF this, of L] obtain adm cnt' where
      r: "floor_walk m is (map lab is) (cnt, L) = Inr (cnt', L @ adm)"
      and s: "subseq adm is" and l: "length cnt' = length cnt"
      and c: "\<forall>c. 0 \<le> c \<and> c < int (length cnt) \<longrightarrow>
                int (count_list (map lab adm) c) =
                  min (int (count_list (map lab is) c)) (max 0 (m - cnt ! nat c))"
      by blast
    have "floor_walk m (i # is) (map lab (i # is)) (cnt, L) = Inr (cnt', L @ adm)"
      using k False r by simp
    moreover have "subseq adm (i # is)" using s by (rule list_emb_Cons)
    moreover have "int (count_list (map lab adm) c) =
                  min (int (count_list (map lab (i # is)) c)) (max 0 (m - cnt ! nat c))"
      if "0 \<le> c \<and> c < int (length cnt)" for c
    proof (cases "c = lab i")
      case True
      with c that False k show ?thesis by (auto simp: min_def max_def)
    next
      case F: False
      with c that show ?thesis by auto
    qed
    ultimately show ?thesis using l by blast
  qed
qed

lemma subseq_set_subset: "subseq xs ys \<Longrightarrow> set xs \<subseteq> set ys"
  by (auto dest: list_emb_set)

lemma subseq_distinct_pres: "subseq xs ys \<Longrightarrow> distinct ys \<Longrightarrow> distinct xs"
proof (induction rule: list_emb.induct)
  case (list_emb_Nil ys)
  then show ?case by simp
next
  case (list_emb_Cons xs ys y)
  then show ?case by simp
next
  case (list_emb_Cons2 x y xs ys)
  then show ?case using subseq_set_subset [of xs ys] by auto
qed

lemma slice_from_map: "slice_from k (map f xs) = map f (slice_from k xs)"
  by (simp add: slice_from_def drop_map)

lemma descending_labels:
  assumes "length u = length xs"
  shows "rev (map (\<lambda>a. map f xs ! a) (argsort u)) = map f (descending xs u)"
  using assms by (simp add: descending_def rev_map)

lemma floor_cycle_result:
  assumes len: "length uncertainty = length (unlabeled_set st)"
    and lab: "label = map lab (unlabeled_set st)"
    and rng: "\<forall>i \<in> set (unlabeled_set st). 0 \<le> lab i \<and> lab i < CLS_CNT"
  shows "\<exists>adm. floor_cycle ADDENDUM MINIMUM_CNT CLS_CNT st uncertainty label =
             Inr \<lparr>labeled_set = labeled_set st
                     @ slice_to (ADDENDUM - MINIMUM_CNT * CLS_CNT) (descending (unlabeled_set st) uncertainty)
                     @ adm,
                   unlabeled_set = remdups (filter
                     (\<lambda>x. x \<notin> set (labeled_set st
                        @ slice_to (ADDENDUM - MINIMUM_CNT * CLS_CNT) (descending (unlabeled_set st) uncertainty)
                        @ adm)) (unlabeled_set st))\<rparr> \<and>
           subseq adm (slice_from (ADDENDUM - MINIMUM_CNT * CLS_CNT) (descending (unlabeled_set st) uncertainty)) \<and>
           (\<forall>c. 0 \<le> c \<and> c < CLS_CNT \<longrightarrow>
                int (count_list (map lab adm) c) =
                  min (int (count_list (map lab
                        (slice_from (ADDENDUM - MINIMUM_CNT * CLS_CNT) (descending (unlabeled_set st) uncertainty))) c))
                      (max 0 MINIMUM_CNT))"
proof -
  let ?U = "unlabeled_set st"
  let ?k = "ADDENDUM - MINIMUM_CNT * CLS_CNT"
  let ?D = "descending ?U uncertainty"
  let ?tail = "slice_from ?k ?D"
  let ?cnt = "replicate (nat CLS_CNT) (0::int)"
  have g1: "gather label (argsort uncertainty) = Inr (map (\<lambda>a. label ! a) (argsort uncertainty))"
    using len lab by (simp add: gather_argsort)
  have g2: "gather ?U (argsort uncertainty) = Inr (map (\<lambda>a. ?U ! a) (argsort uncertainty))"
    using len by (simp add: gather_argsort)
  have ol: "slice_from ?k (rev (map (\<lambda>a. label ! a) (argsort uncertainty))) = map lab ?tail"
    using descending_labels [OF len, of lab] lab by (simp add: slice_from_map)
  have setD: "set ?D = set ?U"
    using mset_descending [OF len] by (metis set_mset_mset)
  have "set ?tail \<subseteq> set ?D"
    by (auto simp: slice_from_def dest: in_set_dropD)
  with setD rng have r: "\<forall>i \<in> set ?tail. 0 \<le> lab i \<and> lab i < int (length ?cnt)"
    by auto
  from floor_walk_admits [OF r, of MINIMUM_CNT "labeled_set st @ slice_to ?k ?D"]
  obtain adm cnt' where
    w: "floor_walk MINIMUM_CNT ?tail (map lab ?tail) (?cnt, labeled_set st @ slice_to ?k ?D)
          = Inr (cnt', (labeled_set st @ slice_to ?k ?D) @ adm)"
    and s: "subseq adm ?tail"
    and c: "\<forall>c. 0 \<le> c \<and> c < int (length ?cnt) \<longrightarrow>
                int (count_list (map lab adm) c) =
                  min (int (count_list (map lab ?tail) c)) (max 0 (MINIMUM_CNT - ?cnt ! nat c))"
    by blast
  have "floor_cycle ADDENDUM MINIMUM_CNT CLS_CNT st uncertainty label =
          Inr \<lparr>labeled_set = labeled_set st @ slice_to ?k ?D @ adm,
               unlabeled_set = remdups (filter
                     (\<lambda>x. x \<notin> set (labeled_set st @ slice_to ?k ?D @ adm)) ?U)\<rparr>"
    using g1 g2 ol w by (simp add: floor_cycle_def Let_def descending_def)
  moreover have "int (count_list (map lab adm) c) =
                  min (int (count_list (map lab ?tail) c)) (max 0 MINIMUM_CNT)"
    if "0 \<le> c \<and> c < CLS_CNT" for c
  proof -
    have "nat c < nat CLS_CNT" using that by auto
    then have "?cnt ! nat c = 0" by simp
    moreover have "c < int (length ?cnt)" using that by simp
    ultimately show ?thesis using c that by simp
  qed
  ultimately show ?thesis using s by blast
qed



section \<open>The class-floor step\<close>

text \<open>
  Claim C2, as amended. With 4 classes, budget 8 and per-class minimum 1 the step first
  labels the 4 highest-scoring samples and then walks the rest of the descending order
  with counters that start at zero: whatever classes the top 4 cover, the floor admits
  from the tail exactly one sample of every class that occurs in the tail and none of a
  class that does not. So it also admits one sample per class when the top 4 already
  cover all classes, and when the top 4 cover only 2 classes it pulls one sample of each
  of the other 2 classes provided the tail holds one (and one of each covered class too).
  Labels are the dataset's labels of the pool, each in \<open>0..3\<close>.
\<close>

theorem floor_cycle_four_classes:
  assumes "length uncertainty = length (unlabeled_set st)"
    and "label = map lab (unlabeled_set st)"
    and "\<forall>i \<in> set (unlabeled_set st). 0 \<le> lab i \<and> lab i < 4"
  shows "\<exists>adm st'. floor_cycle 8 1 4 st uncertainty label = Inr st' \<and>
           labeled_set st' =
             labeled_set st @ take 4 (descending (unlabeled_set st) uncertainty) @ adm \<and>
           subseq adm (drop 4 (descending (unlabeled_set st) uncertainty)) \<and>
           (\<forall>c. 0 \<le> c \<and> c < 4 \<longrightarrow>
              count_list (map lab adm) c =
                (if c \<in> lab ` set (drop 4 (descending (unlabeled_set st) uncertainty))
                 then 1 else 0))"
proof -
  let ?D = "descending (unlabeled_set st) uncertainty"
  have k: "slice_to (8 - 1 * 4) ?D = take 4 ?D" "slice_from (8 - 1 * 4) ?D = drop 4 ?D"
    by (simp_all add: slice_to_def slice_from_def)
  from floor_cycle_result [OF assms, of 8 1] obtain adm st' where
    r: "floor_cycle 8 1 4 st uncertainty label = Inr st'"
    and l: "labeled_set st' = labeled_set st @ take 4 ?D @ adm"
    and s: "subseq adm (drop 4 ?D)"
    and c: "\<forall>c. 0 \<le> c \<and> c < 4 \<longrightarrow>
                int (count_list (map lab adm) c) =
                  min (int (count_list (map lab (drop 4 ?D)) c)) (max 0 1)"
    unfolding k by fastforce
  have "count_list (map lab adm) c = (if c \<in> lab ` set (drop 4 ?D) then 1 else 0)"
    if "0 \<le> c \<and> c < 4" for c
  proof (cases "c \<in> lab ` set (drop 4 ?D)")
    case True
    then have "c \<in> set (map lab (drop 4 ?D))" by simp
    then have "0 < count_list (map lab (drop 4 ?D)) c"
      by (simp add: count_list_0_iff flip: neq0_conv)
    moreover have "int (count_list (map lab adm) c) =
                  min (int (count_list (map lab (drop 4 ?D)) c)) (max 0 1)"
      using c that by blast
    ultimately have "int (count_list (map lab adm) c) = 1" by (simp add: min_def)
    with True show ?thesis by simp
  next
    case False
    then have "c \<notin> set (map lab (drop 4 ?D))" by simp
    then have "count_list (map lab (drop 4 ?D)) c = 0"
      by (simp add: count_list_0_iff)
    moreover have "int (count_list (map lab adm) c) =
                  min (int (count_list (map lab (drop 4 ?D)) c)) (max 0 1)"
      using c that by blast
    ultimately have "int (count_list (map lab adm) c) = 0" by simp
    with False show ?thesis by simp
  qed
  with r l s show ?thesis by blast
qed

text \<open>
  The theorem at \<open>floor_pools\<close>, where the top 4 cover classes 0 and 1 only: the floor
  admits one sample of each of the four classes.
\<close>

theorem floor_cycle_four_classes_witness:
  "\<exists>adm st'. floor_cycle 8 1 4 floor_pools floor_uncertainty
                (map floor_lab (unlabeled_set floor_pools)) = Inr st' \<and>
           labeled_set st' =
             labeled_set floor_pools
               @ take 4 (descending (unlabeled_set floor_pools) floor_uncertainty) @ adm \<and>
           count_list (map floor_lab adm) 0 = 1 \<and> count_list (map floor_lab adm) 1 = 1 \<and>
           count_list (map floor_lab adm) 2 = 1 \<and> count_list (map floor_lab adm) 3 = 1"
proof -
  have h1: "length floor_uncertainty = length (unlabeled_set floor_pools)"
    by (simp add: floor_uncertainty_def floor_pools_def)
  have h2: "map floor_lab (unlabeled_set floor_pools) = map floor_lab (unlabeled_set floor_pools)"
    by simp
  have h3: "\<forall>i \<in> set (unlabeled_set floor_pools). 0 \<le> floor_lab i \<and> floor_lab i < 4"
    by (simp add: floor_pools_def floor_lab_def)
  have d: "drop 4 (descending (unlabeled_set floor_pools) floor_uncertainty)
             = [4, 5, 6, 7, 8, 9, 10, 11]"
    by code_simp
  have i: "floor_lab ` set [4, 5, 6, 7, 8, 9, 10, 11] = {0, 1, 2, 3}"
    by (auto simp: floor_lab_def)
  from floor_cycle_four_classes [OF h1 h2 h3] show ?thesis
    unfolding d i by fastforce
qed

text \<open>
  Claim C2 as stated fails in both cases. First, the pool \<open>0, \<dots>, 11\<close> is in
  descending order of score and index \<open>i\<close> has class \<open>i mod 4\<close>, so the top 4 (indices
  0 to 3) cover all 4 classes; the floor still admits 4 further samples (indices 4 to 7)
  instead of none. Second, the pool \<open>0, \<dots>, 7\<close> in descending order of score has
  classes \<open>0, 0, 1, 1, 0, 1, 0, 1\<close>, so the top 4 cover classes 0 and 1 only; the tail
  holds no sample of classes 2 and 3 and the floor pulls none of them: it admits indices
  4 and 5, of classes 0 and 1.
\<close>

theorem floor_cycle_four_classes_counterexample:
  "floor_cycle 8 1 4 \<lparr>labeled_set = [], unlabeled_set = [0, 1, 2, 3, 4, 5, 6, 7, 8, 9, 10, 11]\<rparr>
     [12, 11, 10, 9, 8, 7, 6, 5, 4, 3, 2, 1] [0, 1, 2, 3, 0, 1, 2, 3, 0, 1, 2, 3]
     = Inr \<lparr>labeled_set = [0, 1, 2, 3] @ [4, 5, 6, 7], unlabeled_set = [8, 9, 10, 11]\<rparr> \<and>
   floor_cycle 8 1 4 \<lparr>labeled_set = [], unlabeled_set = [0, 1, 2, 3, 4, 5, 6, 7]\<rparr>
     [8, 7, 6, 5, 4, 3, 2, 1] [0, 0, 1, 1, 0, 1, 0, 1]
     = Inr \<lparr>labeled_set = [0, 1, 2, 3] @ [4, 5], unlabeled_set = [6, 7]\<rparr>"
  by code_simp



section \<open>The partition invariant of a trial\<close>

lemma floor_cycle_partition:
  assumes len: "length uncertainty = length (unlabeled_set st)"
    and lab: "label = map lab (unlabeled_set st)"
    and rng: "\<forall>i \<in> set (unlabeled_set st). 0 \<le> lab i \<and> lab i < CLS_CNT"
    and dist: "distinct (labeled_set st @ unlabeled_set st)"
  shows "\<exists>st'. floor_cycle ADDENDUM MINIMUM_CNT CLS_CNT st uncertainty label = Inr st' \<and>
           distinct (labeled_set st' @ unlabeled_set st') \<and>
           set (labeled_set st') \<union> set (unlabeled_set st')
             = set (labeled_set st) \<union> set (unlabeled_set st)"
proof -
  let ?L = "labeled_set st"
  let ?U = "unlabeled_set st"
  let ?k = "ADDENDUM - MINIMUM_CNT * CLS_CNT"
  let ?D = "descending ?U uncertainty"
  from floor_cycle_result [OF len lab rng, of ADDENDUM MINIMUM_CNT] obtain adm where
    r: "floor_cycle ADDENDUM MINIMUM_CNT CLS_CNT st uncertainty label =
          Inr \<lparr>labeled_set = ?L @ slice_to ?k ?D @ adm,
               unlabeled_set = remdups (filter (\<lambda>x. x \<notin> set (?L @ slice_to ?k ?D @ adm)) ?U)\<rparr>"
    and s: "subseq adm (slice_from ?k ?D)"
    by blast
  have mD: "mset ?D = mset ?U" by (rule mset_descending [OF len])
  have setD: "set ?D = set ?U" using mD by (metis set_mset_mset)
  have "distinct ?D" using mD dist by (metis distinct_append mset_eq_imp_distinct_iff)
  then have dd: "distinct (slice_to ?k ?D @ slice_from ?k ?D)"
    by (simp add: slice_to_from)
  then have "distinct (slice_from ?k ?D)" by simp
  with s have da: "distinct adm" "set adm \<subseteq> set (slice_from ?k ?D)"
    by (rule subseq_distinct_pres, intro subseq_set_subset)
  have new: "distinct (slice_to ?k ?D @ adm)"
    using dd da by auto
  have "set (slice_to ?k ?D) \<union> set (slice_from ?k ?D) = set ?D"
    by (metis set_append slice_to_from)
  then have sub: "set (slice_to ?k ?D @ adm) \<subseteq> set ?U"
    using da setD by auto
  have dL: "distinct (?L @ slice_to ?k ?D @ adm)"
    using dist new sub by auto
  let ?L' = "?L @ slice_to ?k ?D @ adm"
  let ?U' = "remdups (filter (\<lambda>x. x \<notin> set ?L') ?U)"
  let ?st' = "\<lparr>labeled_set = ?L', unlabeled_set = ?U'\<rparr>"
  have "floor_cycle ADDENDUM MINIMUM_CNT CLS_CNT st uncertainty label = Inr ?st'"
    using r by simp
  moreover have "distinct (labeled_set ?st' @ unlabeled_set ?st')" using dL by auto
  moreover have "set (labeled_set ?st') \<union> set (unlabeled_set ?st') = set ?L \<union> set ?U"
    using sub by auto
  ultimately show ?thesis by blast
qed

lemma run_cycles_partition:
  assumes sc: "\<And>c s. length (fst (scorer c s)) = length s \<and> snd (scorer c s) = map lab s"
    and rng: "\<forall>i \<in> set (labeled_set st) \<union> set (unlabeled_set st). 0 \<le> lab i \<and> lab i < CLS_CNT"
    and dist: "distinct (labeled_set st @ unlabeled_set st)"
  shows "\<exists>st'. run_cycles ADDENDUM MINIMUM_CNT CLS_CNT scorer c n st = Inr st' \<and>
           distinct (labeled_set st' @ unlabeled_set st') \<and>
           set (labeled_set st') \<union> set (unlabeled_set st')
             = set (labeled_set st) \<union> set (unlabeled_set st)"
  using rng dist
proof (induction n arbitrary: c st)
  case 0
  then show ?case by simp
next
  case (Suc n)
  let ?u = "fst (scorer c (unlabeled_set st))"
  let ?l = "snd (scorer c (unlabeled_set st))"
  have 1: "length ?u = length (unlabeled_set st)" and 2: "?l = map lab (unlabeled_set st)"
    using sc by auto
  have 3: "\<forall>i \<in> set (unlabeled_set st). 0 \<le> lab i \<and> lab i < CLS_CNT"
    using Suc.prems(1) by auto
  from floor_cycle_partition [OF 1 2 3 Suc.prems(2), of ADDENDUM MINIMUM_CNT] obtain st1 where
    r: "floor_cycle ADDENDUM MINIMUM_CNT CLS_CNT st ?u ?l = Inr st1"
    and d: "distinct (labeled_set st1 @ unlabeled_set st1)"
    and u: "set (labeled_set st1) \<union> set (unlabeled_set st1)
              = set (labeled_set st) \<union> set (unlabeled_set st)"
    by blast
  have "\<forall>i \<in> set (labeled_set st1) \<union> set (unlabeled_set st1). 0 \<le> lab i \<and> lab i < CLS_CNT"
    using Suc.prems(1) u by simp
  from Suc.IH [OF this d, of "Suc c"] obtain st' where
    "run_cycles ADDENDUM MINIMUM_CNT CLS_CNT scorer (Suc c) n st1 = Inr st'"
    "distinct (labeled_set st' @ unlabeled_set st')"
    "set (labeled_set st') \<union> set (unlabeled_set st')
       = set (labeled_set st1) \<union> set (unlabeled_set st1)"
    by blast
  with r u show ?case by simp
qed

text \<open>
  Claim C5. After any number \<open>n\<close> of cycles of a trial of main.py, started from the split
  of a shuffle of \<^verbatim>\<open>range(NUM_TRAIN)\<close>, the cycles have all completed and the labeled
  and unlabeled lists are disjoint, hold no index twice, and together hold exactly the
  indices \<open>0, \<dots>, NUM_TRAIN - 1\<close>, so the sizes add up to \<open>NUM_TRAIN\<close>. The scorer returns
  one score per sample and the dataset's labels, each a class index below the class count.
\<close>

theorem trial_partition_invariant:
  assumes "mset indices = mset [0..<NUM_TRAIN]"
    and "\<And>c s. length (fst (scorer c s)) = length s \<and> snd (scorer c s) = map lab s"
    and "\<forall>i < NUM_TRAIN. 0 \<le> lab i \<and> lab i < CLS_CNT"
  shows "\<exists>st. trial INIT_CNT ADDENDUM MINIMUM_CNT CLS_CNT scorer indices n = Inr st \<and>
           set (labeled_set st) \<inter> set (unlabeled_set st) = {} \<and>
           distinct (labeled_set st) \<and> distinct (unlabeled_set st) \<and>
           set (labeled_set st) \<union> set (unlabeled_set st) = {0..<NUM_TRAIN} \<and>
           length (labeled_set st) + length (unlabeled_set st) = NUM_TRAIN"
proof -
  let ?st0 = "init_split INIT_CNT indices"
  have app: "labeled_set ?st0 @ unlabeled_set ?st0 = indices"
    by (simp add: init_split_def slice_to_from)
  have di: "distinct indices"
    using assms(1) by (metis distinct_upt mset_eq_imp_distinct_iff)
  have si: "set indices = {0..<NUM_TRAIN}"
    using assms(1) by (metis set_mset_mset set_upt)
  have d0: "distinct (labeled_set ?st0 @ unlabeled_set ?st0)"
    using app di by simp
  have s0: "set (labeled_set ?st0) \<union> set (unlabeled_set ?st0) = {0..<NUM_TRAIN}"
    using app si by (metis set_append)
  have r0: "\<forall>i \<in> set (labeled_set ?st0) \<union> set (unlabeled_set ?st0). 0 \<le> lab i \<and> lab i < CLS_CNT"
    using s0 assms(3) by simp
  from run_cycles_partition [of scorer lab ?st0 CLS_CNT ADDENDUM MINIMUM_CNT 0 n, OF assms(2) r0 d0]
  obtain st where
    r: "run_cycles ADDENDUM MINIMUM_CNT CLS_CNT scorer 0 n ?st0 = Inr st"
    and d: "distinct (labeled_set st @ unlabeled_set st)"
    and u: "set (labeled_set st) \<union> set (unlabeled_set st) = {0..<NUM_TRAIN}"
    using s0 by auto
  have "length (labeled_set st) + length (unlabeled_set st) = card (set (labeled_set st @ unlabeled_set st))"
    using d by (metis distinct_card length_append)
  also have "\<dots> = NUM_TRAIN" using u by simp
  finally have "length (labeled_set st) + length (unlabeled_set st) = NUM_TRAIN" .
  with r d u show ?thesis by (auto simp: trial_def)
qed

theorem trial_partition_invariant_witness:
  "\<exists>st. trial 2 3 1 2 trial_scorer trial_indices 1 = Inr st \<and>
        set (labeled_set st) \<inter> set (unlabeled_set st) = {} \<and>
        distinct (labeled_set st) \<and> distinct (unlabeled_set st) \<and>
        set (labeled_set st) \<union> set (unlabeled_set st) = {0..<8} \<and>
        length (labeled_set st) + length (unlabeled_set st) = 8"
proof -
  have h1: "mset trial_indices = mset [0..<8]"
    by code_simp
  have h2: "length (fst (trial_scorer c s)) = length s \<and> snd (trial_scorer c s) = map trial_lab s"
    for c s
    by (simp add: trial_scorer_def)
  have h3: "\<forall>i < 8. 0 \<le> trial_lab i \<and> trial_lab i < 2"
    by (simp add: trial_lab_def)
  from trial_partition_invariant [where INIT_CNT=2 and ADDENDUM=3 and MINIMUM_CNT=1 and n=1, OF h1 h2 h3]
  show ?thesis .
qed

section \<open>The Top-B step\<close>

lemma top_b_cycle_result:
  assumes "length uncertainty = length (unlabeled_set st)"
    and "length labels = length (unlabeled_set st)"
  shows "top_b_cycle ADDENDUM st uncertainty labels =
           Inr \<lparr>labeled_set = labeled_set st
                   @ slice_from (- ADDENDUM) (map (\<lambda>a. unlabeled_set st ! a) (argsort uncertainty)),
                 unlabeled_set =
                   slice_to (- ADDENDUM) (map (\<lambda>a. unlabeled_set st ! a) (argsort uncertainty))\<rparr>"
  using assms by (simp add: top_b_cycle_def Let_def gather_argsort)

lemma sorted_split_le:
  assumes "sorted (map f xs)" and "a \<in> set (take n xs)" and "b \<in> set (drop n xs)"
  shows "f a \<le> f b"
proof -
  have "sorted (map f (take n xs) @ map f (drop n xs))"
    using assms(1) by (simp flip: map_append)
  then show ?thesis using assms(2,3) by (auto simp: sorted_append)
qed

lemma top_b_cycle_general:
  assumes "1 \<le> B" and "B \<le> int (length (unlabeled_set st))"
    and "length uncertainty = length (unlabeled_set st)"
    and "length labels = length (unlabeled_set st)"
    and "distinct (unlabeled_set st)"
    and "set (labeled_set st) \<inter> set (unlabeled_set st) = {}"
  shows "\<exists>sel rest. top_b_cycle B st uncertainty labels =
             Inr \<lparr>labeled_set = labeled_set st @ sel, unlabeled_set = rest\<rparr> \<and>
           length (labeled_set st @ sel) = length (labeled_set st) + nat B \<and>
           length rest = length (unlabeled_set st) - nat B \<and>
           set (labeled_set st @ sel) \<inter> set rest = {} \<and>
           distinct sel \<and> distinct rest \<and>
           set sel \<union> set rest = set (unlabeled_set st) \<and>
           (\<forall>i < length (unlabeled_set st). \<forall>j < length (unlabeled_set st).
              unlabeled_set st ! i \<in> set sel \<and> unlabeled_set st ! j \<in> set rest
                \<longrightarrow> uncertainty ! j \<le> uncertainty ! i)"
proof -
  let ?U = "unlabeled_set st"
  let ?arg = "argsort uncertainty"
  let ?G = "map (\<lambda>a. ?U ! a) ?arg"
  let ?n = "length ?U - nat B"
  let ?sel = "drop ?n ?G"
  let ?rest = "take ?n ?G"
  have sf: "slice_from (- B) ?G = ?sel" and st: "slice_to (- B) ?G = ?rest"
    using assms(1,3) by (simp_all add: slice_from_def slice_to_def)
  have r: "top_b_cycle B st uncertainty labels =
             Inr \<lparr>labeled_set = labeled_set st @ ?sel, unlabeled_set = ?rest\<rparr>"
    using top_b_cycle_result [OF assms(3,4), of B] sf st by simp
  have mG: "mset ?G = mset ?U" by (rule mset_gathered [OF assms(3)])
  have dG: "distinct ?G" using mG assms(5) by (metis mset_eq_imp_distinct_iff)
  have sG: "set ?G = set ?U" using mG by (metis set_mset_mset)
  have lG: "length ?G = length ?U" using assms(3) by simp
  have d2: "set ?rest \<inter> set ?sel = {}"
    using dG by (metis append_take_drop_id distinct_append)
  have l1: "length ?sel = nat B" using lG assms(1,2) by simp
  have l2: "length ?rest = ?n" using lG by simp
  have u: "set ?sel \<union> set ?rest = set ?U"
    using sG by (metis Un_commute append_take_drop_id set_append)
  have disj: "set (labeled_set st @ ?sel) \<inter> set ?rest = {}"
    using d2 assms(6) u by auto
  have top: "uncertainty ! j \<le> uncertainty ! i"
    if "i < length ?U" "j < length ?U" "?U ! i \<in> set ?sel" "?U ! j \<in> set ?rest" for i j
  proof -
    have inj: "a = b" if "a < length ?U" "b < length ?U" "?U ! a = ?U ! b" for a b
      using that assms(5) by (simp add: nth_eq_iff_index_eq)
    have "?sel = map (\<lambda>a. ?U ! a) (drop ?n ?arg)" by (simp add: drop_map)
    with that(3) obtain a where a: "a \<in> set (drop ?n ?arg)" "?U ! a = ?U ! i" by auto
    then have "a \<in> set ?arg" by (auto dest: in_set_dropD)
    then have "a < length ?U" using assms(3) by simp
    with a that(1) inj have ai: "i \<in> set (drop ?n ?arg)" by metis
    have "?rest = map (\<lambda>a. ?U ! a) (take ?n ?arg)" by (simp add: take_map)
    with that(4) obtain b where b: "b \<in> set (take ?n ?arg)" "?U ! b = ?U ! j" by auto
    then have "b \<in> set ?arg" by (auto dest: in_set_takeD)
    then have "b < length ?U" using assms(3) by simp
    with b that(2) inj have bj: "j \<in> set (take ?n ?arg)" by metis
    from sorted_split_le [OF sorted_argsort bj ai] show ?thesis .
  qed
  have "distinct ?sel" "distinct ?rest" using dG by simp_all
  with r l1 l2 disj u top show ?thesis
    by (intro exI [of _ ?sel] exI [of _ ?rest]) simp
qed

lemma example_scores_high:
  assumes "a < 10" and "7 / 10 \<le> example_scores ! a"
  shows "a \<in> {1, 3, 5}"
proof -
  have "a \<in> {0, 1, 2, 3, 4, 5, 6, 7, 8, 9}" using assms(1) by auto
  then show ?thesis using assms(2) by (auto simp: example_scores_def)
qed

lemma example_scores_top:
  assumes "x \<in> {1, 3, 5}"
  shows "7 / 10 \<le> example_scores ! x"
  using assms by (auto simp: example_scores_def)

lemma example_top3:
  assumes d: "distinct sel" and l: "length sel = 3"
    and u: "set sel \<union> set rest = {0..<10}"
    and i: "set sel \<inter> set rest = {}"
    and t: "\<forall>a \<in> set sel. \<forall>b \<in> set rest. example_scores ! b \<le> example_scores ! a"
  shows "set sel = {1, 3, 5}"
proof -
  have c: "card (set sel) = 3" using d l by (simp add: distinct_card)
  have "x \<in> set sel" if x: "x \<in> {1, 3, 5}" for x
  proof (rule ccontr)
    assume n: "x \<notin> set sel"
    have "x \<in> {0..<10}" using x by auto
    with u n have xr: "x \<in> set rest" by auto
    have "set sel \<subseteq> {1, 3, 5} - {x}"
    proof
      fix a assume a: "a \<in> set sel"
      then have "a < 10" using u by auto
      moreover have "7 / 10 \<le> example_scores ! a"
        using t a xr example_scores_top [OF x] by force
      ultimately have "a \<in> {1, 3, 5}" by (rule example_scores_high)
      moreover have "a \<noteq> x" using a n by auto
      ultimately show "a \<in> {1, 3, 5} - {x}" by simp
    qed
    then have "card (set sel) \<le> card ({1, 3, 5} - {x})"
      by (intro card_mono) auto
    moreover have "card ({1, 3, 5} - {x}) \<le> 2" using x by auto
    ultimately show False using c by simp
  qed
  then have "{1, 3, 5} \<subseteq> set sel" by auto
  moreover have "card {1, 3, 5 :: nat} = 3" by simp
  ultimately show ?thesis using c by (metis List.finite_set card_subset_eq)
qed

text \<open>
  Claim C4. For a budget \<open>B \<ge> 1\<close> (the specification rejects a budget \<open>\<le> 0\<close> as a
  configuration error before any cycle) and a duplicate-free pool of size \<open>P \<ge> B\<close>
  disjoint from the labeled set, the Top-B step of bias_test_ll4al.py appends \<open>B\<close>
  samples to the labeled set and keeps the other \<open>P - B\<close> as the unlabeled set; the two
  results are disjoint and together hold the pool, and no sample that stays has a higher
  score than a sample that moves. In particular, for \<open>example_scores\<close> matched to the
  indices \<open>0..9\<close> in any order of the pool and \<open>B = 3\<close>, the selected indices are
  \<open>{1, 3, 5}\<close>.
\<close>

theorem top_b_cycle_moves_top:
  assumes "1 \<le> B" and "B \<le> int (length (unlabeled_set st))"
    and "length uncertainty = length (unlabeled_set st)"
    and "length labels = length (unlabeled_set st)"
    and "distinct (unlabeled_set st)"
    and "set (labeled_set st) \<inter> set (unlabeled_set st) = {}"
  shows "\<exists>sel rest. top_b_cycle B st uncertainty labels =
             Inr \<lparr>labeled_set = labeled_set st @ sel, unlabeled_set = rest\<rparr> \<and>
           length (labeled_set st @ sel) = length (labeled_set st) + nat B \<and>
           length rest = length (unlabeled_set st) - nat B \<and>
           set (labeled_set st @ sel) \<inter> set rest = {} \<and>
           distinct sel \<and> distinct rest \<and>
           set sel \<union> set rest = set (unlabeled_set st) \<and>
           (\<forall>i < length (unlabeled_set st). \<forall>j < length (unlabeled_set st).
              unlabeled_set st ! i \<in> set sel \<and> unlabeled_set st ! j \<in> set rest
                \<longrightarrow> uncertainty ! j \<le> uncertainty ! i) \<and>
           (B = 3 \<and> set (unlabeled_set st) = {0..<10} \<and>
            uncertainty = map (\<lambda>i. example_scores ! i) (unlabeled_set st)
              \<longrightarrow> set sel = {1, 3, 5})"
proof -
  let ?U = "unlabeled_set st"
  from top_b_cycle_general [OF assms] obtain sel rest where
    r: "top_b_cycle B st uncertainty labels =
             Inr \<lparr>labeled_set = labeled_set st @ sel, unlabeled_set = rest\<rparr>"
    and l1: "length (labeled_set st @ sel) = length (labeled_set st) + nat B"
    and l2: "length rest = length ?U - nat B"
    and dj: "set (labeled_set st @ sel) \<inter> set rest = {}"
    and d: "distinct sel" "distinct rest"
    and u: "set sel \<union> set rest = set ?U"
    and t: "\<forall>i < length ?U. \<forall>j < length ?U.
              ?U ! i \<in> set sel \<and> ?U ! j \<in> set rest \<longrightarrow> uncertainty ! j \<le> uncertainty ! i"
    by blast
  have "set sel = {1, 3, 5}"
    if ex: "B = 3 \<and> set ?U = {0..<10} \<and> uncertainty = map (\<lambda>i. example_scores ! i) ?U"
  proof (rule example_top3 [of sel rest])
    show "distinct sel" by (rule d(1))
    show "length sel = 3" using l1 ex by simp
    show "set sel \<union> set rest = {0..<10}" using u ex by simp
    show "set sel \<inter> set rest = {}" using dj by auto
    show "\<forall>a \<in> set sel. \<forall>b \<in> set rest. example_scores ! b \<le> example_scores ! a"
    proof (intro ballI)
      fix a b assume a: "a \<in> set sel" and b: "b \<in> set rest"
      from a u obtain i where i: "i < length ?U" "?U ! i = a"
        by (metis UnCI in_set_conv_nth)
      from b u obtain j where j: "j < length ?U" "?U ! j = b"
        by (metis UnCI in_set_conv_nth)
      have "uncertainty ! j \<le> uncertainty ! i" using t i j a b by blast
      moreover have "uncertainty ! i = example_scores ! a" "uncertainty ! j = example_scores ! b"
        using ex i j by auto
      ultimately show "example_scores ! b \<le> example_scores ! a" by simp
    qed
  qed
  with r l1 l2 dj d u t show ?thesis by blast
qed

theorem top_b_cycle_moves_top_witness:
  "\<exists>sel rest. top_b_cycle 3 example_pools
       (map (\<lambda>i. example_scores ! i) (unlabeled_set example_pools)) (replicate 10 0) =
         Inr \<lparr>labeled_set = labeled_set example_pools @ sel, unlabeled_set = rest\<rparr> \<and>
       length (labeled_set example_pools @ sel) = length (labeled_set example_pools) + nat 3 \<and>
       length rest = length (unlabeled_set example_pools) - nat 3 \<and>
       set (labeled_set example_pools @ sel) \<inter> set rest = {} \<and>
       set sel = {1, 3, 5}"
proof -
  have h1: "(1::int) \<le> 3" by simp
  have h2: "3 \<le> int (length (unlabeled_set example_pools))"
    by (simp add: example_pools_def)
  have h3: "length (map (\<lambda>i. example_scores ! i) (unlabeled_set example_pools))
              = length (unlabeled_set example_pools)"
    by simp
  have h4: "length (replicate 10 (0::int)) = length (unlabeled_set example_pools)"
    by (simp add: example_pools_def)
  have h5: "distinct (unlabeled_set example_pools)"
    by (simp add: example_pools_def)
  have h6: "set (labeled_set example_pools) \<inter> set (unlabeled_set example_pools) = {}"
    by (simp add: example_pools_def)
  have s: "set (unlabeled_set example_pools) = {0..<10}"
    by (auto simp: example_pools_def)
  from top_b_cycle_moves_top [OF h1 h2 h3 h4 h5 h6] s show ?thesis
    by fastforce
qed

text \<open>
  Outside the budgets the specification admits: with \<^verbatim>\<open>ADDENDUM = 0\<close> the slice
  \<^verbatim>\<open>[-0:]\<close> is the whole array and \<^verbatim>\<open>[:-0]\<close> is empty, so the step moves the whole
  pool.
\<close>

lemma top_b_cycle_zero_budget:
  "top_b_cycle 0 \<lparr>labeled_set = [], unlabeled_set = [5, 6]\<rparr> [0.1, 0.2] [0, 0]
     = Inr \<lparr>labeled_set = [5, 6], unlabeled_set = []\<rparr>"
  by code_simp

section \<open>The uncertainty scorer\<close>














end
